theory Spec2Isabelle
  imports Main "HOL-Library.Multiset"
begin

section \<open>Data model of PokerHandEvaluator.tsx\<close>

text \<open>
  The string-literal union types \<open>Suit\<close>, \<open>Rank\<close> and \<open>HandRank\<close> of the source are
  datatypes; \<open>PlayingCard\<close> is the object type with the two fields \<open>suit\<close> and \<open>rank\<close>.
  The \<open>null\<close> member of \<open>HandRank\<close> is \<open>None\<close> of \<open>HandRank option\<close>; the category
  "Pair" is \<open>Pair_Rank\<close>, since \<open>Pair\<close> is the constructor of HOL's product type.
\<close>

datatype Suit = hearts | diamonds | clubs | spades

datatype Rank = R2 | R3 | R4 | R5 | R6 | R7 | R8 | R9 | R10 | RJ | RQ | RK | RA

record PlayingCard =
  suit :: Suit
  rank :: Rank

datatype HandRank =
    Royal_Flush
  | Straight_Flush
  | Four_of_a_Kind
  | Full_House
  | Flush
  | Straight
  | Three_of_a_Kind
  | Two_Pair
  | Pair_Rank
  | High_Card

definition suits :: "Suit list" where
  "suits = [hearts, diamonds, clubs, spades]"

definition ranks :: "Rank list" where
  "ranks = [R2, R3, R4, R5, R6, R7, R8, R9, R10, RJ, RQ, RK, RA]"

section \<open>The JavaScript library operations the evaluator uses\<close>

text \<open>\<open>Array.prototype.indexOf\<close>: the first index of the element, \<open>-1\<close> when it is absent.\<close>

fun indexOf_from :: "nat \<Rightarrow> 'a list \<Rightarrow> 'a \<Rightarrow> int" where
  "indexOf_from i [] x = - 1"
| "indexOf_from i (y # ys) x = (if y = x then int i else indexOf_from (Suc i) ys x)"

definition indexOf :: "'a list \<Rightarrow> 'a \<Rightarrow> int" where
  "indexOf xs x = indexOf_from 0 xs x"

text \<open>
  An array read \<open>xs[i]\<close>: the element, or \<open>undefined\<close> (here \<open>None\<close>) out of range.
  It never throws.
\<close>

definition nth_opt :: "'a list \<Rightarrow> nat \<Rightarrow> 'a option" where
  "nth_opt xs i = (if i < length xs then Some (xs ! i) else None)"

text \<open>
  A plain object used as a dictionary is an association list in insertion order.
  \<open>obj_put\<close> is the assignment \<open>acc[k] = v\<close>: an existing property keeps its place,
  a new one goes last. \<open>or_zero\<close> is \<open>acc[k] || 0\<close>: \<open>undefined\<close> and \<open>0\<close> are falsy.
\<close>

fun obj_put :: "('k \<times> 'v) list \<Rightarrow> 'k \<Rightarrow> 'v \<Rightarrow> ('k \<times> 'v) list" where
  "obj_put [] k v = [(k, v)]"
| "obj_put (p # ps) k v = (if fst p = k then (k, v) # ps else p # obj_put ps k v)"

fun or_zero :: "int option \<Rightarrow> int" where
  "or_zero None = 0"
| "or_zero (Some n) = (if n = 0 then 0 else n)"

text \<open>
  \<open>Object.values\<close>: string keys are enumerated in insertion order, integer keys in
  ascending numeric order.
\<close>

definition object_values :: "('k \<times> 'v) list \<Rightarrow> 'v list" where
  "object_values acc = map snd acc"

definition object_values_int :: "(int \<times> 'v) list \<Rightarrow> 'v list" where
  "object_values_int acc = map snd (sort_key fst acc)"

text \<open>\<open>Array.prototype.some\<close>, and \<open>Array.prototype.every\<close> with the index argument.\<close>

definition some :: "('a \<Rightarrow> bool) \<Rightarrow> 'a list \<Rightarrow> bool" where
  "some p xs = list_ex p xs"

fun every_from :: "nat \<Rightarrow> ('a \<Rightarrow> nat \<Rightarrow> bool) \<Rightarrow> 'a list \<Rightarrow> bool" where
  "every_from i p [] = True"
| "every_from i p (x # xs) = (p x i \<and> every_from (Suc i) p xs)"

definition every :: "('a \<Rightarrow> nat \<Rightarrow> bool) \<Rightarrow> 'a list \<Rightarrow> bool" where
  "every p xs = every_from 0 p xs"

text \<open>
  \<open>Number.prototype.toString\<close> on an integer (decimal digits, a leading minus sign),
  and \<open>Array.prototype.join\<close> with its default separator, the comma.
\<close>

definition digitChars :: string where
  "digitChars = ''0123456789''"

fun string_of_nat :: "nat \<Rightarrow> string" where
  "string_of_nat n =
     (if n < 10 then [digitChars ! n]
      else string_of_nat (n div 10) @ [digitChars ! (n mod 10)])"

declare string_of_nat.simps [simp del]

definition toString :: "int \<Rightarrow> string" where
  "toString i = (if i < 0 then CHR ''-'' # string_of_nat (nat (- i)) else string_of_nat (nat i))"

fun join :: "int list \<Rightarrow> string" where
  "join [] = []"
| "join [x] = toString x"
| "join (x # y # ys) = toString x @ '','' @ join (y # ys)"

text \<open>
  \<open>sort((a, b) => a - b)\<close> is the stable ascending sort, \<open>sort((a, b) => b - a)\<close> the
  stable descending one.
\<close>

definition sort_asc :: "int list \<Rightarrow> int list" where
  "sort_asc xs = sort xs"

definition sort_desc :: "int list \<Rightarrow> int list" where
  "sort_desc xs = sort_key uminus xs"

section \<open>evaluateHand\<close>

text \<open>
  The local constants of \<open>evaluateHand\<close>, one definition each, as functions of the
  selected cards (the constant \<open>values\<close> is \<open>handValues\<close> here).
\<close>

definition handValues :: "PlayingCard list \<Rightarrow> int list" where
  "handValues selectedCards = sort_asc (map (\<lambda>c. indexOf ranks (rank c) + 2) selectedCards)"

definition suitsCount :: "PlayingCard list \<Rightarrow> (Suit \<times> int) list" where
  "suitsCount selectedCards =
     foldl (\<lambda>acc c. obj_put acc (suit c) (or_zero (map_of acc (suit c)) + 1)) [] selectedCards"

definition valueCount :: "int list \<Rightarrow> (int \<times> int) list" where
  "valueCount vs = foldl (\<lambda>acc val. obj_put acc val (or_zero (map_of acc val) + 1)) [] vs"

definition isFlush :: "PlayingCard list \<Rightarrow> bool" where
  "isFlush selectedCards = some (\<lambda>count. count = 5) (object_values (suitsCount selectedCards))"

definition isStraight :: "int list \<Rightarrow> bool" where
  "isStraight vs =
     (every (\<lambda>val i. i = 0 \<or> (case nth_opt vs (i - 1) of None \<Rightarrow> False | Some p \<Rightarrow> val = p + 1)) vs
      \<or> join vs = ''2,3,4,5,14'')"

definition counts :: "int list \<Rightarrow> int list" where
  "counts vs = sort_desc (object_values_int (valueCount vs))"

definition evaluateHand :: "PlayingCard list \<Rightarrow> HandRank option" where
  "evaluateHand selectedCards =
     (if length selectedCards \<noteq> 5 then None
      else let vs = handValues selectedCards;
               flush = isFlush selectedCards;
               straight = isStraight vs;
               cnts = counts vs
           in if flush \<and> straight \<and> nth_opt vs 4 = Some 14 then Some Royal_Flush
              else if flush \<and> straight then Some Straight_Flush
              else if nth_opt cnts 0 = Some 4 then Some Four_of_a_Kind
              else if nth_opt cnts 0 = Some 3 \<and> nth_opt cnts 1 = Some 2 then Some Full_House
              else if flush then Some Flush
              else if straight then Some Straight
              else if nth_opt cnts 0 = Some 3 then Some Three_of_a_Kind
              else if nth_opt cnts 0 = Some 2 \<and> nth_opt cnts 1 = Some 2 then Some Two_Pair
              else if nth_opt cnts 0 = Some 2 then Some Pair_Rank
              else Some High_Card)"

text \<open>
  The reduction that builds both \<open>suitsCount\<close> and \<open>valueCount\<close>, with the key function
  as a parameter; it is only used to state the lemmas about the two reductions once.
\<close>

definition tally :: "('a \<Rightarrow> 'k) \<Rightarrow> 'a list \<Rightarrow> ('k \<times> int) list" where
  "tally f xs = foldl (\<lambda>acc x. obj_put acc (f x) (or_zero (map_of acc (f x)) + 1)) [] xs"

text \<open>A card, written rank first.\<close>

definition mkCard :: "Rank \<Rightarrow> Suit \<Rightarrow> PlayingCard" where
  "mkCard r s = \<lparr>suit = s, rank = r\<rparr>"

section \<open>Evaluation of the library operations\<close>

lemma toString_values:
  "toString 2 = ''2''" "toString 3 = ''3''" "toString 4 = ''4''" "toString 5 = ''5''"
  "toString 6 = ''6''" "toString 7 = ''7''" "toString 8 = ''8''" "toString 9 = ''9''"
  "toString 10 = ''10''" "toString 11 = ''11''" "toString 12 = ''12''" "toString 13 = ''13''"
  "toString 14 = ''14''"
  by (simp_all add: toString_def string_of_nat.simps digitChars_def)

lemma rank_value:
  "indexOf ranks R2 + 2 = 2" "indexOf ranks R3 + 2 = 3" "indexOf ranks R4 + 2 = 4"
  "indexOf ranks R5 + 2 = 5" "indexOf ranks R6 + 2 = 6" "indexOf ranks R7 + 2 = 7"
  "indexOf ranks R8 + 2 = 8" "indexOf ranks R9 + 2 = 9" "indexOf ranks R10 + 2 = 10"
  "indexOf ranks RJ + 2 = 11" "indexOf ranks RQ + 2 = 12" "indexOf ranks RK + 2 = 13"
  "indexOf ranks RA + 2 = 14"
  by (simp_all add: indexOf_def ranks_def)

section \<open>The frequency objects\<close>

lemma length5: "length xs = 5 \<Longrightarrow> \<exists>a b c d e. xs = [a, b, c, d, e]"
  by (auto simp: length_Suc_conv eval_nat_numeral)

lemma or_zero_Some: "or_zero (Some n) = n"
  by simp

lemma map_of_obj_put: "map_of (obj_put acc k v) = (map_of acc)(k \<mapsto> v)"
  by (induction acc) auto

lemma keys_obj_put: "fst ` set (obj_put acc k v) = insert k (fst ` set acc)"
  by (induction acc) auto

lemma distinct_obj_put: "distinct (map fst acc) \<Longrightarrow> distinct (map fst (obj_put acc k v))"
  by (induction acc) (auto simp: keys_obj_put)

lemma tally_snoc:
  "tally f (xs @ [x]) = obj_put (tally f xs) (f x) (or_zero (map_of (tally f xs) (f x)) + 1)"
  by (simp add: tally_def)

lemma map_of_tally:
  "map_of (tally f xs) k =
     (if k \<in> f ` set xs then Some (int (count (mset (map f xs)) k)) else None)"
proof (induction xs rule: rev_induct)
  case Nil
  then show ?case by (simp add: tally_def)
next
  case (snoc x xs)
  then show ?case
    by (auto simp: tally_snoc map_of_obj_put)
qed

lemma distinct_tally: "distinct (map fst (tally f xs))"
  by (induction xs rule: rev_induct) (simp_all add: tally_def distinct_obj_put)

lemma tally_has_count:
  "(\<exists>v \<in> set (map snd (tally f xs)). v = int n) \<longleftrightarrow> (\<exists>k \<in> f ` set xs. count (mset (map f xs)) k = n)"
proof -
  have "(\<exists>v \<in> set (map snd (tally f xs)). v = int n) \<longleftrightarrow> (\<exists>k. (k, int n) \<in> set (tally f xs))"
    by force
  also have "\<dots> \<longleftrightarrow> (\<exists>k. map_of (tally f xs) k = Some (int n))"
    using distinct_tally [of f xs] by simp
  also have "\<dots> \<longleftrightarrow> (\<exists>k \<in> f ` set xs. count (mset (map f xs)) k = n)"
    by (auto simp: map_of_tally split: if_splits)
  finally show ?thesis .
qed

lemma suitsCount_tally: "suitsCount cs = tally suit cs"
  by (simp add: suitsCount_def tally_def)

lemma valueCount_tally: "valueCount vs = tally (\<lambda>v. v) vs"
  by (simp add: valueCount_def tally_def)

lemma isFlush_count: "isFlush cs \<longleftrightarrow> (\<exists>s. count (mset (map suit cs)) s = 5)"
proof -
  have "isFlush cs \<longleftrightarrow> (\<exists>v \<in> set (map snd (tally suit cs)). v = int 5)"
    by (simp add: isFlush_def some_def object_values_def suitsCount_tally list_ex_iff)
  also have "\<dots> \<longleftrightarrow> (\<exists>k \<in> suit ` set cs. count (mset (map suit cs)) k = 5)"
    by (rule tally_has_count)
  also have "\<dots> \<longleftrightarrow> (\<exists>s. count (mset (map suit cs)) s = 5)"
  proof
    assume "\<exists>k \<in> suit ` set cs. count (mset (map suit cs)) k = 5"
    then show "\<exists>s. count (mset (map suit cs)) s = 5" by blast
  next
    assume "\<exists>s. count (mset (map suit cs)) s = 5"
    then obtain s where s: "count (mset (map suit cs)) s = 5" ..
    then have "s \<in># mset (map suit cs)" by (intro count_inI) simp
    then have "s \<in> suit ` set cs" by simp
    with s show "\<exists>k \<in> suit ` set cs. count (mset (map suit cs)) k = 5" by blast
  qed
  finally show ?thesis .
qed

lemma isFlush_same_suit:
  assumes "length cs = 5"
  shows "isFlush cs \<longleftrightarrow> (\<forall>c \<in> set cs. suit c = suit (hd cs))"
proof -
  obtain a b c d e where cs: "cs = [a, b, c, d, e]"
    using length5 [OF assms] by blast
  show ?thesis
    unfolding isFlush_count cs by (auto split: if_splits)
qed

lemma isFlush_perm: "mset cs = mset cs' \<Longrightarrow> isFlush cs = isFlush cs'"
  by (metis isFlush_count mset_map)

lemma handValues_perm: "mset cs = mset cs' \<Longrightarrow> handValues cs = handValues cs'"
  unfolding handValues_def sort_asc_def
  by (metis mset_map mset_sort properties_for_sort sorted_sort)

lemma handValues_length: "length (handValues cs) = length cs"
  by (simp add: handValues_def sort_asc_def)

lemma rank_value_range: "2 \<le> indexOf ranks r + 2 \<and> indexOf ranks r + 2 \<le> 14"
  by (cases r) (simp_all add: rank_value)

lemma handValues_range: "v \<in> set (handValues cs) \<Longrightarrow> 2 \<le> v \<and> v \<le> 14"
  using rank_value_range by (auto simp: handValues_def sort_asc_def)

lemma handValues_sorted: "sorted (handValues cs)"
  by (simp add: handValues_def sort_asc_def)

section \<open>The straight predicate on five values\<close>

lemma value_cases:
  assumes "2 \<le> (v::int)" "v \<le> 14"
  shows "v = 2 \<or> v = 3 \<or> v = 4 \<or> v = 5 \<or> v = 6 \<or> v = 7 \<or> v = 8 \<or> v = 9 \<or> v = 10
         \<or> v = 11 \<or> v = 12 \<or> v = 13 \<or> v = 14"
  using assms by arith

lemma join_head1:
  assumes "2 \<le> v" "v \<le> 14"
  shows "(toString v @ CHR '','' # r = ''2,3,4,5,14'') \<longleftrightarrow> v = 2 \<and> r = ''3,4,5,14''"
  using value_cases [OF assms] by (elim disjE) (simp_all add: toString_values)

lemma join_head2:
  assumes "2 \<le> v" "v \<le> 14"
  shows "(toString v @ CHR '','' # r = ''3,4,5,14'') \<longleftrightarrow> v = 3 \<and> r = ''4,5,14''"
  using value_cases [OF assms] by (elim disjE) (simp_all add: toString_values)

lemma join_head3:
  assumes "2 \<le> v" "v \<le> 14"
  shows "(toString v @ CHR '','' # r = ''4,5,14'') \<longleftrightarrow> v = 4 \<and> r = ''5,14''"
  using value_cases [OF assms] by (elim disjE) (simp_all add: toString_values)

lemma join_head4:
  assumes "2 \<le> v" "v \<le> 14"
  shows "(toString v @ CHR '','' # r = ''5,14'') \<longleftrightarrow> v = 5 \<and> r = ''14''"
  using value_cases [OF assms] by (elim disjE) (simp_all add: toString_values)

lemma join_head5:
  assumes "2 \<le> v" "v \<le> 14"
  shows "(toString v = ''14'') \<longleftrightarrow> v = 14"
  using value_cases [OF assms] by (elim disjE) (simp_all add: toString_values)

lemma join_wheel:
  assumes "2 \<le> a" "a \<le> 14" "2 \<le> b" "b \<le> 14" "2 \<le> c" "c \<le> 14"
    "2 \<le> d" "d \<le> 14" "2 \<le> e" "e \<le> 14"
  shows "(join [a, b, c, d, e] = ''2,3,4,5,14'') \<longleftrightarrow> [a, b, c, d, e] = [2, 3, 4, 5, 14]"
  using assms by (simp add: join_head1 join_head2 join_head3 join_head4 join_head5)

lemma isStraight_five:
  "isStraight [a, b, c, d, e] \<longleftrightarrow>
     (b = a + 1 \<and> c = b + 1 \<and> d = c + 1 \<and> e = d + 1) \<or> join [a, b, c, d, e] = ''2,3,4,5,14''"
  by (simp add: isStraight_def every_def nth_opt_def)

lemma isStraight_values:
  assumes "length vs = 5" "\<forall>v \<in> set vs. 2 \<le> v \<and> v \<le> 14"
  shows "isStraight vs \<longleftrightarrow>
     (\<exists>a. vs = [a, a + 1, a + 2, a + 3, a + 4]) \<or> vs = [2, 3, 4, 5, 14]"
proof -
  obtain a b c d e where vs: "vs = [a, b, c, d, e]"
    using length5 [OF assms(1)] by blast
  have "(join [a, b, c, d, e] = ''2,3,4,5,14'') \<longleftrightarrow> [a, b, c, d, e] = [2, 3, 4, 5, 14]"
    using assms(2) unfolding vs by (intro join_wheel) simp_all
  moreover have "(b = a + 1 \<and> c = b + 1 \<and> d = c + 1 \<and> e = d + 1) \<longleftrightarrow>
      (\<exists>x. [a, b, c, d, e] = [x, x + 1, x + 2, x + 3, x + 4])"
    by auto
  ultimately show ?thesis
    unfolding vs isStraight_five by simp
qed

lemma isStraight_handValues:
  assumes "length cs = 5"
  shows "isStraight (handValues cs) \<longleftrightarrow>
     (\<exists>a. handValues cs = [a, a + 1, a + 2, a + 3, a + 4]) \<or> handValues cs = [2, 3, 4, 5, 14]"
  using assms handValues_range by (intro isStraight_values) (simp_all add: handValues_length)

lemma counts_consecutive: "counts [a, a + 1, a + 2, a + 3, a + 4] = [1, 1, 1, 1, 1]"
  by (simp add: counts_def valueCount_def object_values_int_def sort_desc_def)

lemma counts_wheel: "counts [2, 3, 4, 5, 14] = [1, 1, 1, 1, 1]"
  by (simp add: counts_def valueCount_def object_values_int_def sort_desc_def)

lemma counts_same: "counts [v, v, v, v, v] = [5]"
  by (simp add: counts_def valueCount_def object_values_int_def sort_desc_def)

lemma isStraight_counts:
  assumes "length cs = 5" "isStraight (handValues cs)"
  shows "counts (handValues cs) = [1, 1, 1, 1, 1]"
  using assms counts_consecutive counts_wheel by (auto simp: isStraight_handValues)

section \<open>The frequency list in terms of the ranks of the hand\<close>

text \<open>
  \<open>counts\<close> is the descending sort of the numbers of occurrences of the distinct ranks of
  the hand (\<open>counts_of_ranks\<close>); the descending sort is what makes the list independent of
  the order in which \<open>Object.values\<close> enumerates the frequencies.
\<close>

lemma rank_value_inj: "indexOf ranks r + 2 = indexOf ranks r' + 2 \<Longrightarrow> r = r'"
  by (cases r; cases r'; simp add: indexOf_def ranks_def)

lemma sort_desc_perm: "mset xs = mset ys \<Longrightarrow> sort_desc xs = sort_desc ys"
  unfolding sort_desc_def by (rule sort_key_inj_key_eq) (auto simp: inj_on_def)

lemma set_tally:
  "set (tally f xs) = (\<lambda>k. (k, int (count (mset (map f xs)) k))) ` f ` set xs"
proof -
  have "(k, v) \<in> set (tally f xs) \<longleftrightarrow> map_of (tally f xs) k = Some v" for k v
    using distinct_tally [of f xs] by simp
  then have "(k, v) \<in> set (tally f xs) \<longleftrightarrow>
      k \<in> f ` set xs \<and> v = int (count (mset (map f xs)) k)" for k v
    unfolding map_of_tally by auto
  then show ?thesis by (auto simp: image_iff)
qed

lemma mset_tally:
  "mset (tally f xs) =
     image_mset (\<lambda>k. (k, int (count (mset (map f xs)) k))) (mset_set (f ` set xs))"
proof -
  have "distinct (tally f xs)"
    using distinct_tally [of f xs] by (simp add: distinct_map)
  then have "mset (tally f xs) = mset_set (set (tally f xs))"
    by (simp add: mset_set_set)
  also have "\<dots> = image_mset (\<lambda>k. (k, int (count (mset (map f xs)) k))) (mset_set (f ` set xs))"
    unfolding set_tally by (rule image_mset_mset_set [symmetric]) (simp add: inj_on_def)
  finally show ?thesis .
qed

lemma mset_value_frequencies:
  "mset (object_values_int (valueCount vs)) =
     image_mset (\<lambda>v. int (count (mset vs) v)) (mset_set (set vs))"
proof -
  have "mset (object_values_int (valueCount vs)) = image_mset snd (mset (tally (\<lambda>v. v) vs))"
    by (simp add: object_values_int_def valueCount_tally)
  also have "\<dots> = image_mset (\<lambda>v. int (count (mset vs) v)) (mset_set (set vs))"
    unfolding mset_tally by (simp add: image_mset.compositionality comp_def)
  finally show ?thesis .
qed

lemma handValues_mset:
  "mset (handValues cs) = image_mset (\<lambda>r. indexOf ranks r + 2) (mset (map rank cs))"
  by (simp add: handValues_def sort_asc_def image_mset.compositionality comp_def)

lemma count_image_inj: "inj f \<Longrightarrow> count (image_mset f M) (f x) = count M x"
  by (induction M) (auto dest: injD)

lemma count_handValues:
  "count (mset (handValues cs)) (indexOf ranks r + 2) = count_list (map rank cs) r"
proof -
  have "inj (\<lambda>r. indexOf ranks r + 2)"
    by (rule injI) (rule rank_value_inj)
  then have "count (mset (handValues cs)) (indexOf ranks r + 2) = count (mset (map rank cs)) r"
    unfolding handValues_mset by (rule count_image_inj)
  then show ?thesis
    by (simp only: count_mset)
qed

lemma counts_of_ranks:
  assumes "distinct rs" "set rs = rank ` set cs"
  shows "counts (handValues cs) = sort_desc (map (\<lambda>r. int (count_list (map rank cs) r)) rs)"
proof -
  let ?val = "\<lambda>r. indexOf ranks r + 2"
  have inj: "inj_on ?val (set rs)"
    by (rule inj_onI) (rule rank_value_inj)
  have "set (handValues cs) = ?val ` set rs"
    unfolding assms(2) by (auto simp: handValues_def sort_asc_def)
  then have "mset_set (set (handValues cs)) = image_mset ?val (mset rs)"
    using image_mset_mset_set [OF inj] mset_set_set [OF assms(1)] by simp
  then have "mset (object_values_int (valueCount (handValues cs))) =
      mset (map (\<lambda>r. int (count_list (map rank cs) r)) rs)"
    unfolding mset_value_frequencies
    by (simp add: image_mset.compositionality comp_def count_handValues)
  then show ?thesis
    unfolding counts_def by (rule sort_desc_perm)
qed


lemma mset_add_size:
  assumes "N \<subseteq># M"
  obtains C where "M = N + C" "size C = size M - size N"
  using assms by (auto simp: mset_subset_eq_exists_conv)

lemma ranks_full_house:
  assumes "length cs = 5" "a \<noteq> b"
    "count_list (map rank cs) a = 3" "count_list (map rank cs) b = 2"
  shows "rank ` set cs = {a, b}"
proof -
  let ?R = "mset (map rank cs)"
  have ca: "count ?R a = 3" and cb: "count ?R b = 2"
    using assms(3,4) by (simp_all only: count_mset)
  have "{#a, a, a, b, b#} \<subseteq># ?R"
    by (rule mset_subset_eqI) (use assms(2) ca cb in auto)
  then obtain C where C: "?R = {#a, a, a, b, b#} + C" "size C = size ?R - size {#a, a, a, b, b#}"
    by (rule mset_add_size)
  have "size ?R = 5" using assms(1) by simp
  with C(2) have "C = {#}" by simp
  with C(1) have "set_mset ?R = {a, b}" by (simp only:) auto
  then show ?thesis by simp
qed

lemma ranks_two_pair:
  assumes "length cs = 5" "a \<noteq> b"
    "count_list (map rank cs) a = 2" "count_list (map rank cs) b = 2"
  shows "\<exists>c. c \<noteq> a \<and> c \<noteq> b \<and> rank ` set cs = {a, b, c} \<and> count_list (map rank cs) c = 1"
proof -
  let ?R = "mset (map rank cs)"
  have ca: "count ?R a = 2" and cb: "count ?R b = 2"
    using assms(3,4) by (simp_all only: count_mset)
  have "{#a, a, b, b#} \<subseteq># ?R"
    by (rule mset_subset_eqI) (use assms(2) ca cb in auto)
  then obtain C where C: "?R = {#a, a, b, b#} + C" "size C = size ?R - size {#a, a, b, b#}"
    by (rule mset_add_size)
  have "size ?R = 5" using assms(1) by simp
  with C(2) have "size C = 1" by simp
  then obtain c where c: "C = {#c#}"
    using size_1_singleton_mset by blast
  have R: "?R = {#a, a, b, b, c#}"
    unfolding C(1) c by simp
  have "c \<noteq> a" "c \<noteq> b"
    using ca cb assms(2) unfolding R by (auto split: if_splits)
  moreover from R have "set_mset ?R = {a, b, c}" by (simp only:) auto
  then have "rank ` set cs = {a, b, c}" by simp
  moreover have "count ?R c = 1"
    unfolding R using \<open>c \<noteq> a\<close> \<open>c \<noteq> b\<close> by simp
  then have "count_list (map rank cs) c = 1" by (simp only: count_mset)
  ultimately show ?thesis by blast
qed

lemma ranks_pair:
  assumes "length cs = 5" "count_list (map rank cs) a = 2"
    "\<forall>r. r \<noteq> a \<longrightarrow> count_list (map rank cs) r \<le> 1"
  shows "\<exists>b c d. distinct [a, b, c, d] \<and> rank ` set cs = {a, b, c, d}
           \<and> count_list (map rank cs) b = 1 \<and> count_list (map rank cs) c = 1
           \<and> count_list (map rank cs) d = 1"
proof -
  let ?R = "mset (map rank cs)"
  have ca: "count ?R a = 2"
    using assms(2) by (simp only: count_mset)
  have le: "r \<noteq> a \<Longrightarrow> count ?R r \<le> 1" for r
    unfolding count_mset using assms(3) by blast
  have "{#a, a#} \<subseteq># ?R"
    by (rule mset_subset_eqI) (use ca in auto)
  then obtain C where C: "?R = {#a, a#} + C" "size C = size ?R - size {#a, a#}"
    by (rule mset_add_size)
  have "size ?R = 5" using assms(1) by simp
  with C(2) have "size C = Suc 2" by simp
  then obtain b C1 where b: "C = add_mset b C1"
    using size_eq_Suc_imp_eq_union by blast
  with \<open>size C = Suc 2\<close> have "size C1 = Suc 1" by simp
  then obtain c C2 where c: "C1 = add_mset c C2"
    using size_eq_Suc_imp_eq_union by blast
  with \<open>size C1 = Suc 1\<close> have "size C2 = 1" by simp
  then obtain d where d: "C2 = {#d#}"
    using size_1_singleton_mset by blast
  have R: "?R = {#a, a, b, c, d#}"
    unfolding C(1) b c d by simp
  have na: "b \<noteq> a" "c \<noteq> a" "d \<noteq> a"
    using ca unfolding R by (auto split: if_splits)
  have nb: "b \<noteq> c" "b \<noteq> d" "c \<noteq> d"
    using le [of b] le [of c] le [of d] na unfolding R by (auto split: if_splits)
  from R have "set_mset ?R = {a, b, c, d}" by (simp only:) auto
  then have "rank ` set cs = {a, b, c, d}" by simp
  moreover have "count ?R b = 1" "count ?R c = 1" "count ?R d = 1"
    unfolding R using na nb by simp_all
  then have "count_list (map rank cs) b = 1" "count_list (map rank cs) c = 1"
    "count_list (map rank cs) d = 1" by (simp_all only: count_mset)
  ultimately have "distinct [a, b, c, d] \<and> rank ` set cs = {a, b, c, d}
           \<and> count_list (map rank cs) b = 1 \<and> count_list (map rank cs) c = 1
           \<and> count_list (map rank cs) d = 1"
    using na nb by auto
  then show ?thesis by blast
qed

lemma counts_full_house:
  assumes "length cs = 5" "a \<noteq> b"
    "count_list (map rank cs) a = 3" "count_list (map rank cs) b = 2"
  shows "counts (handValues cs) = [3, 2]"
proof -
  have "rank ` set cs = {a, b}"
    using assms by (rule ranks_full_house)
  then have "counts (handValues cs) = sort_desc (map (\<lambda>r. int (count_list (map rank cs) r)) [a, b])"
    using assms(2) by (intro counts_of_ranks) simp_all
  then show ?thesis
    using assms(3,4) by (simp add: sort_desc_def)
qed

lemma counts_two_pair:
  assumes "length cs = 5" "a \<noteq> b"
    "count_list (map rank cs) a = 2" "count_list (map rank cs) b = 2"
  shows "counts (handValues cs) = [2, 2, 1]"
proof -
  obtain c where c: "c \<noteq> a" "c \<noteq> b" "rank ` set cs = {a, b, c}" "count_list (map rank cs) c = 1"
    using ranks_two_pair [OF assms] by blast
  have "counts (handValues cs) = sort_desc (map (\<lambda>r. int (count_list (map rank cs) r)) [a, b, c])"
    using assms(2) c by (intro counts_of_ranks) auto
  then show ?thesis
    using assms(3,4) c(4) by (simp add: sort_desc_def)
qed

lemma counts_pair:
  assumes "length cs = 5" "count_list (map rank cs) a = 2"
    "\<forall>r. r \<noteq> a \<longrightarrow> count_list (map rank cs) r \<le> 1"
  shows "counts (handValues cs) = [2, 1, 1, 1]"
proof -
  obtain b c d where r: "distinct [a, b, c, d]" "rank ` set cs = {a, b, c, d}"
    "count_list (map rank cs) b = 1" "count_list (map rank cs) c = 1"
    "count_list (map rank cs) d = 1"
    using ranks_pair [OF assms] by blast
  have "counts (handValues cs) = sort_desc (map (\<lambda>r. int (count_list (map rank cs) r)) [a, b, c, d])"
    using r(1,2) by (intro counts_of_ranks) auto
  then show ?thesis
    using assms(2) r(3-5) by (simp add: sort_desc_def)
qed

lemma counts_member:
  assumes "n \<in> set (counts (handValues cs))"
  shows "\<exists>r. int (count_list (map rank cs) r) = n"
proof -
  obtain rs where rs: "set rs = rank ` set cs" "distinct rs"
    using finite_distinct_list [of "rank ` set cs"] by auto
  have "counts (handValues cs) = sort_desc (map (\<lambda>r. int (count_list (map rank cs) r)) rs)"
    using rs by (intro counts_of_ranks)
  with assms show ?thesis
    by (auto simp: sort_desc_def)
qed

lemma evaluateHand_by_counts:
  assumes "length cs = 5" "counts (handValues cs) = x # y # zs" "x \<noteq> 1"
  shows "evaluateHand cs =
     (if x = 4 then Some Four_of_a_Kind
      else if x = 3 \<and> y = 2 then Some Full_House
      else if \<forall>c \<in> set cs. suit c = suit (hd cs) then Some Flush
      else if x = 3 then Some Three_of_a_Kind
      else if x = 2 \<and> y = 2 then Some Two_Pair
      else if x = 2 then Some Pair_Rank
      else Some High_Card)"
proof -
  have "\<not> isStraight (handValues cs)"
    using isStraight_counts [OF assms(1)] assms(2,3) by auto
  then show ?thesis
    using assms(1,2) isFlush_same_suit [OF assms(1)]
    by (simp add: evaluateHand_def Let_def nth_opt_def)
qed

text \<open>The equations that evaluate \<open>evaluateHand\<close> on a concrete hand.\<close>

lemmas eval_defs = evaluateHand_def handValues_def isFlush_def isStraight_def counts_def
  suitsCount_def valueCount_def mkCard_def sort_asc_def sort_desc_def object_values_def
  object_values_int_def some_def every_def nth_opt_def rank_value toString_values

section \<open>The properties of the specification\<close>

text \<open>
  C1. The claim: the ace-low straight flush A, 2, 3, 4, 5 of diamonds is a Straight Flush and
  not a Royal Flush. The first guard of \<open>evaluateHand\<close> tests only \<open>values[4] === 14\<close>, which
  the wheel satisfies too, so the code returns Royal Flush on this hand.
\<close>

theorem wheel_straight_flush_evaluates_to_royal:
  "evaluateHand [mkCard RA diamonds, mkCard R2 diamonds, mkCard R3 diamonds,
                 mkCard R4 diamonds, mkCard R5 diamonds] = Some Royal_Flush
   \<and> evaluateHand [mkCard RA diamonds, mkCard R2 diamonds, mkCard R3 diamonds,
                 mkCard R4 diamonds, mkCard R5 diamonds] \<noteq> Some Straight_Flush"
  by (simp add: eval_defs)

text \<open>
  C2. \<open>evaluateHand\<close> returns \<open>null\<close> exactly when the number of selected cards is not 5.
\<close>

theorem evaluateHand_null_iff:
  "evaluateHand selectedCards = None \<longleftrightarrow> length selectedCards \<noteq> 5"
  by (simp add: evaluateHand_def Let_def)

theorem evaluateHand_null_iff_witness:
  "evaluateHand [] = None
   \<and> evaluateHand [mkCard R2 clubs, mkCard R5 diamonds, mkCard R9 hearts, mkCard RJ spades] = None
   \<and> evaluateHand [mkCard R2 clubs, mkCard R5 diamonds, mkCard R9 hearts, mkCard RJ spades,
                    mkCard RK clubs, mkCard RA clubs] = None
   \<and> evaluateHand [mkCard R2 clubs, mkCard R5 diamonds, mkCard R9 hearts, mkCard RJ spades,
                    mkCard RK clubs] \<noteq> None"
  using evaluateHand_null_iff [of "[]"]
    evaluateHand_null_iff [of "[mkCard R2 clubs, mkCard R5 diamonds, mkCard R9 hearts,
                                mkCard RJ spades]"]
    evaluateHand_null_iff [of "[mkCard R2 clubs, mkCard R5 diamonds, mkCard R9 hearts,
                                mkCard RJ spades, mkCard RK clubs, mkCard RA clubs]"]
    evaluateHand_null_iff [of "[mkCard R2 clubs, mkCard R5 diamonds, mkCard R9 hearts,
                                mkCard RJ spades, mkCard RK clubs]"]
  by simp

text \<open>
  C3. A five-card hand for which both \<open>isFlush\<close> and \<open>isStraight\<close> hold is a Straight Flush
  or a Royal Flush, hence neither a Flush nor a Straight. (By \<open>isFlush_same_suit\<close> the flush
  predicate says that the five cards share one suit, by \<open>isStraight_handValues\<close> the straight
  predicate says that the values are consecutive or the wheel.)
\<close>

theorem flush_and_straight_priority:
  assumes "length cs = 5" "isFlush cs" "isStraight (handValues cs)"
  shows "(evaluateHand cs = Some Straight_Flush \<or> evaluateHand cs = Some Royal_Flush)
         \<and> evaluateHand cs \<noteq> Some Flush \<and> evaluateHand cs \<noteq> Some Straight"
  using assms by (auto simp add: evaluateHand_def Let_def)

theorem flush_and_straight_priority_witness:
  "isFlush [mkCard R5 hearts, mkCard R6 hearts, mkCard R7 hearts, mkCard R8 hearts, mkCard R9 hearts]
   \<and> isStraight (handValues [mkCard R5 hearts, mkCard R6 hearts, mkCard R7 hearts,
                             mkCard R8 hearts, mkCard R9 hearts])
   \<and> (evaluateHand [mkCard R5 hearts, mkCard R6 hearts, mkCard R7 hearts,
                    mkCard R8 hearts, mkCard R9 hearts] = Some Straight_Flush
      \<or> evaluateHand [mkCard R5 hearts, mkCard R6 hearts, mkCard R7 hearts,
                    mkCard R8 hearts, mkCard R9 hearts] = Some Royal_Flush)"
proof -
  let ?h = "[mkCard R5 hearts, mkCard R6 hearts, mkCard R7 hearts, mkCard R8 hearts,
             mkCard R9 hearts]"
  have len: "length ?h = 5" by simp
  have fl: "isFlush ?h"
    by (simp add: isFlush_def suitsCount_def object_values_def some_def mkCard_def)
  have st: "isStraight (handValues ?h)"
    by (simp add: isStraight_def handValues_def sort_asc_def every_def nth_opt_def mkCard_def
        rank_value)
  from flush_and_straight_priority [OF len fl st] fl st show ?thesis by blast
qed

text \<open>
  C4. Ten, jack, queen, king and ace of spades are a Royal Flush.
\<close>

theorem royal_flush_spades:
  "evaluateHand [mkCard R10 spades, mkCard RJ spades, mkCard RQ spades,
                 mkCard RK spades, mkCard RA spades] = Some Royal_Flush"
  by (simp add: eval_defs)

text \<open>
  C5. On the sorted values of a five-card hand, \<open>isStraight\<close> holds exactly when the values
  are five consecutive integers or are exactly 2, 3, 4, 5, 14.
\<close>

theorem isStraight_iff_consecutive_or_wheel:
  assumes "length cs = 5"
  shows "isStraight (handValues cs) \<longleftrightarrow>
     (\<exists>a. handValues cs = [a, a + 1, a + 2, a + 3, a + 4]) \<or> handValues cs = [2, 3, 4, 5, 14]"
  using assms by (rule isStraight_handValues)

theorem isStraight_iff_consecutive_or_wheel_witness:
  "isStraight (handValues [mkCard R8 hearts, mkCard R6 clubs, mkCard R10 hearts,
                           mkCard R7 spades, mkCard R9 diamonds])
   \<and> isStraight (handValues [mkCard RA clubs, mkCard R2 diamonds, mkCard R3 hearts,
                             mkCard R4 spades, mkCard R5 clubs])
   \<and> \<not> isStraight (handValues [mkCard RQ clubs, mkCard RK diamonds, mkCard RA hearts,
                               mkCard R2 spades, mkCard R3 clubs])"
  using
    isStraight_iff_consecutive_or_wheel [of "[mkCard R8 hearts, mkCard R6 clubs, mkCard R10 hearts,
                           mkCard R7 spades, mkCard R9 diamonds]"]
    isStraight_iff_consecutive_or_wheel [of "[mkCard RA clubs, mkCard R2 diamonds, mkCard R3 hearts,
                             mkCard R4 spades, mkCard R5 clubs]"]
    isStraight_iff_consecutive_or_wheel [of "[mkCard RQ clubs, mkCard RK diamonds, mkCard RA hearts,
                               mkCard R2 spades, mkCard R3 clubs]"]
  by (simp add: handValues_def sort_asc_def mkCard_def rank_value)

text \<open>
  C6. \<open>evaluateHand\<close> gives the same result on every permutation of its input.
\<close>

theorem evaluateHand_permutation:
  assumes "mset cs' = mset cs"
  shows "evaluateHand cs' = evaluateHand cs"
proof -
  have "length cs' = length cs"
    using assms by (rule mset_eq_length)
  moreover have "handValues cs' = handValues cs"
    using assms by (rule handValues_perm)
  moreover have "isFlush cs' = isFlush cs"
    using assms by (rule isFlush_perm)
  ultimately show ?thesis
    by (simp add: evaluateHand_def)
qed

theorem evaluateHand_permutation_witness:
  "mset [mkCard RK clubs, mkCard R5 hearts, mkCard R2 diamonds, mkCard R5 spades, mkCard R2 clubs]
     = mset [mkCard R2 clubs, mkCard R2 diamonds, mkCard R5 hearts, mkCard R5 spades, mkCard RK clubs]
   \<and> evaluateHand [mkCard RK clubs, mkCard R5 hearts, mkCard R2 diamonds, mkCard R5 spades,
                    mkCard R2 clubs]
     = evaluateHand [mkCard R2 clubs, mkCard R2 diamonds, mkCard R5 hearts, mkCard R5 spades,
                     mkCard RK clubs]"
proof -
  have m: "mset [mkCard RK clubs, mkCard R5 hearts, mkCard R2 diamonds, mkCard R5 spades,
                 mkCard R2 clubs]
     = mset [mkCard R2 clubs, mkCard R2 diamonds, mkCard R5 hearts, mkCard R5 spades,
             mkCard RK clubs]"
    by (simp add: mkCard_def)
  from evaluateHand_permutation [OF m] m show ?thesis by blast
qed

text \<open>
  C7. Two Pair is tested before Pair, and both are read off the descending frequency list:
  a five-card hand in which two different ranks occur twice each has \<open>counts = [2, 2, 1]\<close> and
  is a Two Pair; a hand in which one rank occurs twice and no other rank is repeated has
  \<open>counts = [2, 1, 1, 1]\<close> and is a Pair. (With duplicate cards such a hand can have a single
  suit; the Flush guard then comes first.) In particular the hand 2, 2, 5, 5, K of the claim is
  a Two Pair and the hand 2, 2, 5, 9, K a Pair.
\<close>

theorem two_pair_and_pair:
  assumes "length cs = 5"
  shows "(a \<noteq> b \<and> count_list (map rank cs) a = 2 \<and> count_list (map rank cs) b = 2
            \<longrightarrow> counts (handValues cs) = [2, 2, 1]
              \<and> evaluateHand cs =
                  Some (if \<forall>c \<in> set cs. suit c = suit (hd cs) then Flush else Two_Pair))
       \<and> (count_list (map rank cs) a = 2 \<and> (\<forall>r. r \<noteq> a \<longrightarrow> count_list (map rank cs) r \<le> 1)
            \<longrightarrow> counts (handValues cs) = [2, 1, 1, 1]
              \<and> evaluateHand cs =
                  Some (if \<forall>c \<in> set cs. suit c = suit (hd cs) then Flush else Pair_Rank))
       \<and> evaluateHand [mkCard R2 clubs, mkCard R2 diamonds, mkCard R5 hearts,
                        mkCard R5 spades, mkCard RK clubs] = Some Two_Pair
       \<and> evaluateHand [mkCard R2 clubs, mkCard R2 diamonds, mkCard R5 hearts,
                        mkCard R9 spades, mkCard RK clubs] = Some Pair_Rank"
proof (intro conjI impI)
  assume h: "a \<noteq> b \<and> count_list (map rank cs) a = 2 \<and> count_list (map rank cs) b = 2"
  then show c: "counts (handValues cs) = [2, 2, 1]"
    using assms by (intro counts_two_pair [of cs a b]) simp_all
  show "evaluateHand cs = Some (if \<forall>c \<in> set cs. suit c = suit (hd cs) then Flush else Two_Pair)"
    using evaluateHand_by_counts [OF assms c] by simp
next
  assume h: "count_list (map rank cs) a = 2 \<and> (\<forall>r. r \<noteq> a \<longrightarrow> count_list (map rank cs) r \<le> 1)"
  then show c: "counts (handValues cs) = [2, 1, 1, 1]"
    using assms by (intro counts_pair [of cs a]) simp_all
  show "evaluateHand cs = Some (if \<forall>c \<in> set cs. suit c = suit (hd cs) then Flush else Pair_Rank)"
    using evaluateHand_by_counts [OF assms c] by simp
next
  show "evaluateHand [mkCard R2 clubs, mkCard R2 diamonds, mkCard R5 hearts,
                        mkCard R5 spades, mkCard RK clubs] = Some Two_Pair"
    by (simp add: eval_defs)
next
  show "evaluateHand [mkCard R2 clubs, mkCard R2 diamonds, mkCard R5 hearts,
                        mkCard R9 spades, mkCard RK clubs] = Some Pair_Rank"
    by (simp add: eval_defs)
qed

theorem two_pair_and_pair_witness:
  "evaluateHand [mkCard R9 clubs, mkCard R5 diamonds, mkCard R2 hearts, mkCard R9 spades,
                 mkCard R5 clubs] = Some Two_Pair
   \<and> counts (handValues [mkCard R9 clubs, mkCard R5 diamonds, mkCard R2 hearts, mkCard R9 spades,
                         mkCard R5 clubs]) = [2, 2, 1]
   \<and> evaluateHand [mkCard RK clubs, mkCard R5 diamonds, mkCard R2 hearts, mkCard R9 spades,
                    mkCard R5 clubs] = Some Pair_Rank
   \<and> counts (handValues [mkCard RK clubs, mkCard R5 diamonds, mkCard R2 hearts, mkCard R9 spades,
                         mkCard R5 clubs]) = [2, 1, 1, 1]"
proof -
  let ?h2 = "[mkCard R9 clubs, mkCard R5 diamonds, mkCard R2 hearts, mkCard R9 spades,
              mkCard R5 clubs]"
  let ?h1 = "[mkCard RK clubs, mkCard R5 diamonds, mkCard R2 hearts, mkCard R9 spades,
              mkCard R5 clubs]"
  have len: "length ?h2 = 5" "length ?h1 = 5" by simp_all
  have two: "R5 \<noteq> R9 \<and> count_list (map rank ?h2) R5 = 2 \<and> count_list (map rank ?h2) R9 = 2"
    by (simp add: mkCard_def)
  have one: "count_list (map rank ?h1) R5 = 2
      \<and> (\<forall>r. r \<noteq> R5 \<longrightarrow> count_list (map rank ?h1) r \<le> 1)"
    by (simp add: mkCard_def)
  have s2: "\<not> (\<forall>c \<in> set ?h2. suit c = suit (hd ?h2))" by (simp add: mkCard_def)
  have s1: "\<not> (\<forall>c \<in> set ?h1. suit c = suit (hd ?h1))" by (simp add: mkCard_def)
  from two_pair_and_pair [OF len(1), of R5 R9] two s2
    two_pair_and_pair [OF len(2), of R5] one s1
  show ?thesis by presburger
qed

text \<open>
  C8. The descending frequency list \<open>counts\<close> of a five-card hand begins with 3, 2 exactly
  when one rank occurs three times and another rank twice, and every such hand is a Full House
  (with duplicate cards as well, where it may have a single suit: the Full House guard comes
  before the Flush guard).
\<close>

theorem full_house_counts:
  assumes "length cs = 5"
  shows "(take 2 (counts (handValues cs)) = [3, 2]
            \<longleftrightarrow> (\<exists>a b. a \<noteq> b \<and> count_list (map rank cs) a = 3 \<and> count_list (map rank cs) b = 2))
       \<and> (take 2 (counts (handValues cs)) = [3, 2] \<longrightarrow> evaluateHand cs = Some Full_House)
       \<and> ((\<exists>a b. a \<noteq> b \<and> count_list (map rank cs) a = 3 \<and> count_list (map rank cs) b = 2)
            \<longrightarrow> evaluateHand cs = Some Full_House)"
proof -
  have fh: "evaluateHand cs = Some Full_House" if t: "take 2 (counts (handValues cs)) = [3, 2]"
  proof -
    obtain x y zs where c: "counts (handValues cs) = x # y # zs"
      using t by (cases "counts (handValues cs)"; cases "tl (counts (handValues cs))") auto
    with t have "x = 3" "y = 2" by simp_all
    with evaluateHand_by_counts [OF assms c] show ?thesis by simp
  qed
  have l2r: "\<exists>a b. a \<noteq> b \<and> count_list (map rank cs) a = 3 \<and> count_list (map rank cs) b = 2"
    if t: "take 2 (counts (handValues cs)) = [3, 2]"
  proof -
    have "set (take 2 (counts (handValues cs))) \<subseteq> set (counts (handValues cs))"
      by (rule set_take_subset)
    with t have "3 \<in> set (counts (handValues cs))" "2 \<in> set (counts (handValues cs))"
      by auto
    then obtain a b where "int (count_list (map rank cs) a) = 3" "int (count_list (map rank cs) b) = 2"
      using counts_member by blast
    then have "a \<noteq> b \<and> count_list (map rank cs) a = 3 \<and> count_list (map rank cs) b = 2"
      by auto
    then show ?thesis by blast
  qed
  have r2l: "take 2 (counts (handValues cs)) = [3, 2]"
    if "\<exists>a b. a \<noteq> b \<and> count_list (map rank cs) a = 3 \<and> count_list (map rank cs) b = 2"
    using that counts_full_house [OF assms] by auto
  from fh l2r r2l show ?thesis by blast
qed

theorem full_house_counts_witness:
  "take 2 (counts (handValues [mkCard RK clubs, mkCard R9 spades, mkCard RK diamonds,
                              mkCard RK hearts, mkCard R9 clubs])) = [3, 2]
   \<and> evaluateHand [mkCard RK clubs, mkCard R9 spades, mkCard RK diamonds,
                    mkCard RK hearts, mkCard R9 clubs] = Some Full_House
   \<and> evaluateHand [mkCard R9 clubs, mkCard R9 diamonds, mkCard R9 hearts,
                    mkCard RK spades, mkCard RK clubs] = Some Full_House"
proof -
  let ?k = "[mkCard RK clubs, mkCard R9 spades, mkCard RK diamonds, mkCard RK hearts,
             mkCard R9 clubs]"
  let ?n = "[mkCard R9 clubs, mkCard R9 diamonds, mkCard R9 hearts, mkCard RK spades,
             mkCard RK clubs]"
  have len: "length ?k = 5" "length ?n = 5" by simp_all
  have "RK \<noteq> R9 \<and> count_list (map rank ?k) RK = 3 \<and> count_list (map rank ?k) R9 = 2"
    by (simp add: mkCard_def)
  then have k: "\<exists>a b. a \<noteq> b \<and> count_list (map rank ?k) a = 3 \<and> count_list (map rank ?k) b = 2"
    by blast
  have "R9 \<noteq> RK \<and> count_list (map rank ?n) R9 = 3 \<and> count_list (map rank ?n) RK = 2"
    by (simp add: mkCard_def)
  then have n: "\<exists>a b. a \<noteq> b \<and> count_list (map rank ?n) a = 3 \<and> count_list (map rank ?n) b = 2"
    by blast
  from full_house_counts [OF len(1)] k full_house_counts [OF len(2)] n
  show ?thesis by blast
qed

text \<open>
  C9. On every five-card input, duplicates included, \<open>evaluateHand\<close> returns exactly one of
  the ten categories of \<open>HandRank\<close> and never \<open>null\<close>; \<open>values[4]\<close> is always in range. A read
  out of range, such as \<open>counts[1]\<close> when all five ranks are equal, yields \<open>undefined\<close>
  (\<open>None\<close> of \<open>nth_opt\<close>) and the comparison with it is false: the witness is such a hand.
\<close>

theorem evaluateHand_total:
  assumes "length cs = 5"
  shows "(\<exists>!r. evaluateHand cs = Some r) \<and> evaluateHand cs \<noteq> None
         \<and> nth_opt (handValues cs) 4 \<noteq> None"
  using assms by (simp add: evaluateHand_def Let_def nth_opt_def handValues_length)

theorem evaluateHand_total_witness:
  "nth_opt (counts (handValues [mkCard R7 spades, mkCard R7 spades, mkCard R7 spades,
                                mkCard R7 spades, mkCard R7 hearts])) 1 = None
   \<and> (\<exists>!r. evaluateHand [mkCard R7 spades, mkCard R7 spades, mkCard R7 spades,
                          mkCard R7 spades, mkCard R7 hearts] = Some r)
   \<and> nth_opt (handValues [mkCard R7 spades, mkCard R7 spades, mkCard R7 spades,
                          mkCard R7 spades, mkCard R7 hearts]) 4 \<noteq> None"
proof -
  let ?h = "[mkCard R7 spades, mkCard R7 spades, mkCard R7 spades, mkCard R7 spades,
             mkCard R7 hearts]"
  have len: "length ?h = 5" by simp
  have c: "nth_opt (counts (handValues ?h)) 1 = None"
    by (simp add: counts_def valueCount_def object_values_int_def sort_desc_def handValues_def
        sort_asc_def mkCard_def rank_value nth_opt_def)
  from evaluateHand_total [OF len] c show ?thesis by blast
qed

text \<open>
  C10. When all five cards have the same rank, the only frequency is 5 and no guard on
  \<open>counts\<close> matches: the result is Flush when the five cards also share their suit and
  High Card otherwise, never Four of a Kind.
\<close>

theorem five_of_one_rank:
  assumes "length cs = 5" "\<forall>c \<in> set cs. rank c = r"
  shows "evaluateHand cs = Some (if \<forall>c \<in> set cs. suit c = suit (hd cs) then Flush else High_Card)
         \<and> evaluateHand cs \<noteq> Some Four_of_a_Kind"
proof -
  obtain c1 c2 c3 c4 c5 where cs: "cs = [c1, c2, c3, c4, c5]"
    using length5 [OF assms(1)] by blast
  define v where "v = indexOf ranks r + 2"
  have vs: "handValues cs = [v, v, v, v, v]"
    using assms(2) by (simp add: cs handValues_def sort_asc_def v_def)
  have "\<not> isStraight (handValues cs)"
    using isStraight_handValues [OF assms(1)] by (simp add: vs)
  moreover have "counts (handValues cs) = [5]"
    unfolding vs by (rule counts_same)
  moreover note isFlush_same_suit [OF assms(1)]
  ultimately show ?thesis
    using assms(1) by (simp add: evaluateHand_def Let_def nth_opt_def)
qed

theorem five_of_one_rank_witness:
  "evaluateHand [mkCard R9 clubs, mkCard R9 clubs, mkCard R9 clubs, mkCard R9 clubs,
                 mkCard R9 clubs] = Some Flush
   \<and> evaluateHand [mkCard R9 clubs, mkCard R9 clubs, mkCard R9 hearts, mkCard R9 clubs,
                    mkCard R9 clubs] = Some High_Card"
  using five_of_one_rank [of "[mkCard R9 clubs, mkCard R9 clubs, mkCard R9 clubs, mkCard R9 clubs,
                 mkCard R9 clubs]" R9]
    five_of_one_rank [of "[mkCard R9 clubs, mkCard R9 clubs, mkCard R9 hearts, mkCard R9 clubs,
                    mkCard R9 clubs]" R9]
  by (simp add: mkCard_def)

end
